theory Spec2Isabelle
  imports
    Complex_Main
    "HOL-Library.List_Lexorder"
    "HOL-Library.Char_ord"
    "HOL-Library.Multiset"
    "HOL-Library.AList"
    "HOL-Library.Word"
begin

section \<open>Exceptions\<close>

text \<open>
  The Python exceptions that the modelled code paths of \<^verbatim>\<open>train.py\<close> can raise.
  A computation that may raise returns \<open>error + 'a\<close>, with \<open>Inl\<close> for the exception.
\<close>

datatype error =
    FileNotFoundError
  | NotADirectoryError
  | ValueError
  | RuntimeError
  | IndexError
  | TypeError
  | ZeroDivisionError

section \<open>The dataset indexer: \<^verbatim>\<open>VideoBehaviorModel.prepare_data\<close>\<close>

subsection \<open>Filesystem and path primitives\<close>

text \<open>
  The filesystem is a partial map from path strings to nodes. A directory node holds the
  names \<^verbatim>\<open>os.listdir\<close> returns for it, in the order the filesystem enumerates them.
\<close>

datatype node = File | Dir "string list"

type_synonym filesystem = "string \<Rightarrow> node option"

definition listdir :: "filesystem \<Rightarrow> string \<Rightarrow> error + string list" where
  "listdir fs p =
     (case fs p of
        None \<Rightarrow> Inl FileNotFoundError
      | Some File \<Rightarrow> Inl NotADirectoryError
      | Some (Dir names) \<Rightarrow> Inr names)"

definition isdir :: "filesystem \<Rightarrow> string \<Rightarrow> bool" where
  "isdir fs p = (case fs p of Some (Dir names) \<Rightarrow> True | _ \<Rightarrow> False)"

text \<open>
  \<^verbatim>\<open>os.path.join(a, b)\<close> with two arguments, in its POSIX form: a component that
  starts with the separator replaces the path, otherwise it is appended, with a
  separator unless the path is empty or already ends with one.
\<close>

definition path_join :: "string \<Rightarrow> string \<Rightarrow> string" where
  "path_join a b =
     (if b \<noteq> [] \<and> hd b = CHR ''/'' then b
      else if a = [] \<or> last a = CHR ''/'' then a @ b
      else a @ ''/'' @ b)"

text \<open>\<^verbatim>\<open>s.endswith(suf)\<close>.\<close>

definition endswith :: "string \<Rightarrow> string \<Rightarrow> bool" where
  "endswith s suf = (length suf \<le> length s \<and> drop (length s - length suf) s = suf)"

subsection \<open>Class names and labels (lines 87 to 92)\<close>

definition class_names :: "filesystem \<Rightarrow> string \<Rightarrow> error + string list" where
  "class_names fs video_folder =
     (case listdir fs video_folder of
        Inl e \<Rightarrow> Inl e
      | Inr entries \<Rightarrow>
          Inr (sort (filter (\<lambda>folder. isdir fs (path_join video_folder folder)) entries)))"

text \<open>
  The dict comprehension \<^verbatim>\<open>{class_name: idx for idx, class_name in enumerate(class_names)}\<close>.
  A Python dict keeps insertion order, and storing under a key that is already present
  replaces the value in place: this is \<open>AList.update\<close> on an association list.
\<close>

definition label_dict :: "string list \<Rightarrow> (string \<times> nat) list" where
  "label_dict names =
     foldl (\<lambda>d (idx, class_name). AList.update class_name idx d) [] (List.enumerate 0 names)"

definition class_labels :: "filesystem \<Rightarrow> string \<Rightarrow> error + (string \<times> nat) list" where
  "class_labels fs video_folder =
     (case class_names fs video_folder of
        Inl e \<Rightarrow> Inl e
      | Inr names \<Rightarrow> Inr (label_dict names))"

subsection \<open>The random split (lines 94 to 110)\<close>

text \<open>
  The four output lists and the state of the global random generator, which
  \<^verbatim>\<open>np.random.rand()\<close> reads and advances. The generator itself is a parameter
  \<open>rand\<close>: one draw and the next generator state.
\<close>

record 'g split =
  train_paths :: "string list"
  test_paths :: "string list"
  train_labels :: "nat list"
  test_labels :: "nat list"
  rng :: 'g

definition empty_split :: "'g \<Rightarrow> 'g split" where
  "empty_split g =
     \<lparr>train_paths = [], test_paths = [], train_labels = [], test_labels = [], rng = g\<rparr>"

text \<open>The body of the inner loop once a name has passed the extension test.\<close>

definition assign_video :: "('g \<Rightarrow> real \<times> 'g) \<Rightarrow> string \<Rightarrow> nat \<Rightarrow> 'g split \<Rightarrow> 'g split" where
  "assign_video rand video_path label st =
     (let (r, g') = rand (rng st) in
      if r < 0.8
      then st\<lparr>train_paths := train_paths st @ [video_path],
              train_labels := train_labels st @ [label], rng := g'\<rparr>
      else st\<lparr>test_paths := test_paths st @ [video_path],
              test_labels := test_labels st @ [label], rng := g'\<rparr>)"

text \<open>The inner loop \<^verbatim>\<open>for video_name in os.listdir(class_path)\<close>.\<close>

fun split_class ::
  "('g \<Rightarrow> real \<times> 'g) \<Rightarrow> string \<Rightarrow> nat \<Rightarrow> string list \<Rightarrow> 'g split \<Rightarrow> 'g split" where
  "split_class rand class_path label [] st = st"
| "split_class rand class_path label (video_name # rest) st =
     (if endswith video_name ''.avi''
      then split_class rand class_path label rest
             (assign_video rand (path_join class_path video_name) label st)
      else split_class rand class_path label rest st)"

text \<open>The outer loop \<^verbatim>\<open>for video_class, label in label_dict.items()\<close>.\<close>

fun split_classes ::
  "('g \<Rightarrow> real \<times> 'g) \<Rightarrow> filesystem \<Rightarrow> string \<Rightarrow> (string \<times> nat) list \<Rightarrow> 'g split
     \<Rightarrow> error + 'g split" where
  "split_classes rand fs video_folder [] st = Inr st"
| "split_classes rand fs video_folder ((video_class, label) # rest) st =
     (let class_path = path_join video_folder video_class in
      case listdir fs class_path of
        Inl e \<Rightarrow> Inl e
      | Inr names \<Rightarrow>
          split_classes rand fs video_folder rest (split_class rand class_path label names st))"

definition prepare_data ::
  "('g \<Rightarrow> real \<times> 'g) \<Rightarrow> filesystem \<Rightarrow> string \<Rightarrow> 'g \<Rightarrow> error + 'g split" where
  "prepare_data rand fs video_folder g =
     (case class_labels fs video_folder of
        Inl e \<Rightarrow> Inl e
      | Inr labels \<Rightarrow> split_classes rand fs video_folder labels (empty_split g))"

subsection \<open>What the loops enumerate\<close>

text \<open>
  The video files of one class folder, as (path, label) pairs in enumeration order, and
  the video files of the whole tree, in the order the two loops visit them.
\<close>

definition class_videos :: "filesystem \<Rightarrow> string \<Rightarrow> string \<times> nat \<Rightarrow> (string \<times> nat) list" where
  "class_videos fs video_folder cl =
     (case listdir fs (path_join video_folder (fst cl)) of
        Inl e \<Rightarrow> []
      | Inr names \<Rightarrow>
          map (\<lambda>video_name. (path_join (path_join video_folder (fst cl)) video_name, snd cl))
            (filter (\<lambda>video_name. endswith video_name ''.avi'') names))"

definition video_files :: "filesystem \<Rightarrow> string \<Rightarrow> (string \<times> nat) list \<Rightarrow> (string \<times> nat) list" where
  "video_files fs video_folder labels = concat (map (class_videos fs video_folder) labels)"

text \<open>The first \<open>n\<close> draws of the generator from state \<open>g\<close>, and the state after them.\<close>

fun draws :: "('g \<Rightarrow> real \<times> 'g) \<Rightarrow> 'g \<Rightarrow> nat \<Rightarrow> real list" where
  "draws rand g 0 = []"
| "draws rand g (Suc n) = fst (rand g) # draws rand (snd (rand g)) n"

fun after_draws :: "('g \<Rightarrow> real \<times> 'g) \<Rightarrow> 'g \<Rightarrow> nat \<Rightarrow> 'g" where
  "after_draws rand g 0 = g"
| "after_draws rand g (Suc n) = after_draws rand (snd (rand g)) n"

text \<open>The videos whose draw falls on the given side of the threshold.\<close>

definition routed :: "bool \<Rightarrow> (string \<times> nat) list \<Rightarrow> real list \<Rightarrow> (string \<times> nat) list" where
  "routed to_train vs ds = map fst (filter (\<lambda>(v, d). (d < 0.8) = to_train) (zip vs ds))"

text \<open>
  The split as a single loop over an enumerated list of (path, label) pairs, and the
  state reached by appending two routed lists to the outputs. The nested loops of
  \<open>prepare_data\<close> are shown below to compute exactly this.
\<close>

fun assign_all :: "('g \<Rightarrow> real \<times> 'g) \<Rightarrow> (string \<times> nat) list \<Rightarrow> 'g split \<Rightarrow> 'g split" where
  "assign_all rand [] st = st"
| "assign_all rand (v # vs) st = assign_all rand vs (assign_video rand (fst v) (snd v) st)"

definition add_routed ::
  "'g split \<Rightarrow> (string \<times> nat) list \<Rightarrow> (string \<times> nat) list \<Rightarrow> 'g \<Rightarrow> 'g split" where
  "add_routed st tr te g =
     st\<lparr>train_paths := train_paths st @ map fst tr,
        test_paths := test_paths st @ map fst te,
        train_labels := train_labels st @ map snd tr,
        test_labels := test_labels st @ map snd te,
        rng := g\<rparr>"

text \<open>
  Directory entries as a filesystem provides them: a name is not empty and holds no
  separator, and a directory lists each name once.
\<close>

definition plain_name :: "string \<Rightarrow> bool" where
  "plain_name n = (n \<noteq> [] \<and> CHR ''/'' \<notin> set n)"

definition well_formed_tree :: "filesystem \<Rightarrow> string \<Rightarrow> bool" where
  "well_formed_tree fs video_folder =
     (case listdir fs video_folder of
        Inl e \<Rightarrow> False
      | Inr entries \<Rightarrow>
          distinct entries \<and> list_all plain_name entries \<and>
          list_all (\<lambda>folder.
              case listdir fs (path_join video_folder folder) of
                Inl e \<Rightarrow> True
              | Inr names \<Rightarrow> distinct names \<and> list_all plain_name names) entries)"

subsection \<open>Example inputs for the indexer\<close>

text \<open>
  Two directory trees with the same class folders and files, enumerated in different
  orders, and a generator that alternates between the draws 0.5 and 0.9.
\<close>

definition example_tree :: filesystem where
  "example_tree = map_of
     [(''data'', Dir [''walk'', ''notes.txt'', ''jump'']),
      (''data/walk'', Dir [''w1.avi'', ''w2.avi'', ''readme.md'']),
      (''data/notes.txt'', File),
      (''data/jump'', Dir [''j1.avi'', ''thumb.png''])]"

definition example_tree_reordered :: filesystem where
  "example_tree_reordered = map_of
     [(''data'', Dir [''jump'', ''walk'', ''notes.txt'']),
      (''data/walk'', Dir [''readme.md'', ''w2.avi'', ''w1.avi'']),
      (''data/notes.txt'', File),
      (''data/jump'', Dir [''thumb.png'', ''j1.avi''])]"

definition example_rand :: "nat \<Rightarrow> real \<times> nat" where
  "example_rand n = (if even n then 1 / 2 else 9 / 10, Suc n)"

section \<open>The video dataset: \<^verbatim>\<open>VideoDataset.__getitem__\<close>\<close>

subsection \<open>Arrays and tensors\<close>

text \<open>
  A NumPy array or a Torch tensor is its shape and its elements. The elements are given
  by multi-index: \<open>cell a [i, j, k]\<close> is \<^verbatim>\<open>a[i, j, k]\<close>, and only indices within the
  shape are meaningful. The operations below are the library calls of
  \<^verbatim>\<open>__getitem__\<close>, each with the shape check that makes the library raise.
\<close>

record 'a ndarray =
  shape :: "nat list"
  cell :: "nat list \<Rightarrow> 'a"

text \<open>
  \<^verbatim>\<open>np.array(frames)\<close> on a list of arrays of one common shape stacks them along a new
  leading axis. On the empty list it is the one-dimensional empty array of shape
  \<^verbatim>\<open>(0,)\<close>: no frame is there to give it the three image axes.
\<close>

definition np_array :: "('a::zero) ndarray list \<Rightarrow> 'a ndarray" where
  "np_array frames =
     (case frames of
        [] \<Rightarrow> \<lparr>shape = [0], cell = (\<lambda>ix. 0)\<rparr>
      | first # others \<Rightarrow>
          \<lparr>shape = length frames # shape first,
           cell = (\<lambda>ix. case ix of
                     [] \<Rightarrow> 0
                   | t # rest \<Rightarrow> if t < length frames then cell (frames ! t) rest else 0)\<rparr>)"

text \<open>
  Elementwise conversion and arithmetic: \<^verbatim>\<open>torch.tensor(a, dtype=torch.float32)\<close>
  and \<^verbatim>\<open>a / 255.0\<close>. Floating-point values are modelled as real numbers, so the
  division is exact.
\<close>

definition map_cells :: "('a \<Rightarrow> 'b) \<Rightarrow> 'a ndarray \<Rightarrow> 'b ndarray" where
  "map_cells f a = \<lparr>shape = shape a, cell = (\<lambda>ix. f (cell a ix))\<rparr>"

text \<open>
  \<^verbatim>\<open>len(a)\<close> is the extent of the first axis; an array without axes has no length.
\<close>

definition len_nd :: "'a ndarray \<Rightarrow> error + nat" where
  "len_nd a = (case shape a of [] \<Rightarrow> Inl TypeError | n # rest \<Rightarrow> Inr n)"

text \<open>
  \<^verbatim>\<open>np.pad(a, pad_width, mode='constant', constant_values=0)\<close> with one
  (before, after) pair per axis. NumPy broadcasts \<open>pad_width\<close> to the shape
  \<^verbatim>\<open>(a.ndim, 2)\<close>: a single pair serves every axis, while a list of four pairs
  broadcasts only to four axes, and on an array with another number of axes the call
  raises \<^verbatim>\<open>ValueError\<close>.
\<close>

definition np_pad :: "real ndarray \<Rightarrow> (nat \<times> nat) list \<Rightarrow> error + real ndarray" where
  "np_pad a pad_width =
     (let widths = (if length pad_width = 1 then replicate (length (shape a)) (hd pad_width)
                    else pad_width)
      in if length widths \<noteq> length (shape a) then Inl ValueError
         else Inr
           \<lparr>shape = map2 (\<lambda>n (before, after). before + n + after) (shape a) widths,
            cell = (\<lambda>ix.
              if list_all2 (\<lambda>i (n, before, after). before \<le> i \<and> i < before + n)
                   ix (zip (shape a) widths)
              then cell a (map2 (\<lambda>i (before, after). i - before) ix widths)
              else 0)\<rparr>)"

text \<open>
  The slice \<^verbatim>\<open>a[:stop]\<close> along the first axis, with Python's reading of a negative
  bound.
\<close>

definition slice_len :: "nat \<Rightarrow> int \<Rightarrow> nat" where
  "slice_len n stop = (if stop < 0 then nat (int n + stop) else min n (nat stop))"

definition slice_to :: "'a ndarray \<Rightarrow> int \<Rightarrow> error + 'a ndarray" where
  "slice_to a stop =
     (case shape a of
        [] \<Rightarrow> Inl IndexError
      | n # rest \<Rightarrow> Inr (a\<lparr>shape := slice_len n stop # rest\<rparr>))"

text \<open>
  \<^verbatim>\<open>a.permute(dims)\<close>: axis \<open>k\<close> of the result is axis \<open>dims ! k\<close> of \<open>a\<close>.
  The call raises \<^verbatim>\<open>RuntimeError\<close> unless \<open>dims\<close> names every axis of \<open>a\<close> once.
\<close>

fun position :: "nat \<Rightarrow> nat list \<Rightarrow> nat" where
  "position j [] = 0"
| "position j (d # ds) = (if d = j then 0 else Suc (position j ds))"

definition permute :: "nat list \<Rightarrow> 'a ndarray \<Rightarrow> error + 'a ndarray" where
  "permute dims a =
     (if sort dims \<noteq> [0..<length (shape a)] then Inl RuntimeError
      else Inr
        \<lparr>shape = map (\<lambda>d. shape a ! d) dims,
         cell = (\<lambda>ix. cell a (map (\<lambda>j. ix ! position j dims) [0..<length dims]))\<rparr>)"

subsection \<open>Lists and video capture\<close>

text \<open>
  \<^verbatim>\<open>xs[idx]\<close> on a Python list: a negative index counts from the end, and an index
  out of range raises \<^verbatim>\<open>IndexError\<close>.
\<close>

definition py_index :: "'a list \<Rightarrow> int \<Rightarrow> error + 'a" where
  "py_index xs idx =
     (if 0 \<le> idx \<and> idx < int (length xs) then Inr (xs ! nat idx)
      else if idx < 0 \<and> - int (length xs) \<le> idx then Inr (xs ! nat (int (length xs) + idx))
      else Inl IndexError)"

text \<open>
  A \<^verbatim>\<open>cv2.VideoCapture\<close>: whether the file could be opened, and the frames that
  successive \<^verbatim>\<open>read()\<close> calls deliver before the first failing read. Opening a
  file is the parameter \<open>VideoCapture\<close> of \<open>getitem\<close>. A file that cannot be read is
  a capture that is not opened, or one that delivers no frame.
\<close>

record 'raw capture =
  opened :: bool
  stream :: "'raw list"

definition decoded :: "'raw capture \<Rightarrow> 'raw list" where
  "decoded cap = (if opened cap then stream cap else [])"

text \<open>
  \<^verbatim>\<open>cv2.resize(frame, (224, 224))\<close> of a three-channel frame. The interpolation is
  the library's: \<open>interp frame [h, w, c]\<close> is the value it computes for row \<open>h\<close>,
  column \<open>w\<close> and channel \<open>c\<close> of the resized image.
\<close>

definition cv2_resize :: "('raw \<Rightarrow> nat list \<Rightarrow> 8 word) \<Rightarrow> 'raw \<Rightarrow> 8 word ndarray" where
  "cv2_resize interp frame = \<lparr>shape = [224, 224, 3], cell = interp frame\<rparr>"

text \<open>
  The decoding loop (lines 43 to 50), run over the frames the capture delivers: every
  frame is resized and appended; the first failing read ends the loop.
\<close>

fun read_frames ::
  "('raw \<Rightarrow> nat list \<Rightarrow> 8 word) \<Rightarrow> 'raw list \<Rightarrow> 8 word ndarray list \<Rightarrow> 8 word ndarray list" where
  "read_frames interp [] frames = frames"
| "read_frames interp (frame # rest) frames =
     read_frames interp rest (frames @ [cv2_resize interp frame])"

subsection \<open>The dataset and \<^verbatim>\<open>__getitem__\<close>\<close>

record video_dataset =
  video_paths :: "string list"
  labels :: "nat list"
  fixed_frame_count :: int

text \<open>
  Lines 55 to 59: pad a short sequence along the time axis, cut a long one.
\<close>

definition fit_length :: "real ndarray \<Rightarrow> int \<Rightarrow> error + real ndarray" where
  "fit_length frames target =
     (case len_nd frames of
        Inl e \<Rightarrow> Inl e
      | Inr n \<Rightarrow>
          if int n < target then
            np_pad frames [(0, nat (target - int n)), (0, 0), (0, 0), (0, 0)]
          else if int n > target then slice_to frames target
          else Inr frames)"

text \<open>
  \<^verbatim>\<open>__getitem__\<close> (lines 39 to 62). The conversion of line 60 builds a float tensor
  from values that are floats already and changes none of them; \<^verbatim>\<open>cap.release()\<close>
  has no effect on the result.
\<close>

definition getitem ::
  "(string \<Rightarrow> 'raw capture) \<Rightarrow> ('raw \<Rightarrow> nat list \<Rightarrow> 8 word) \<Rightarrow> video_dataset \<Rightarrow> int
     \<Rightarrow> error + (real ndarray \<times> nat)" where
  "getitem VideoCapture interp self idx =
     (case py_index (video_paths self) idx of
        Inl e \<Rightarrow> Inl e
      | Inr video_path \<Rightarrow>
     (case py_index (labels self) idx of
        Inl e \<Rightarrow> Inl e
      | Inr label \<Rightarrow>
     (let cap = VideoCapture video_path;
          frames = read_frames interp (decoded cap) [];
          frames = np_array frames;
          frames = map_cells (\<lambda>x. x / 255) (map_cells (\<lambda>p. real (unat p)) frames)
      in case fit_length frames (fixed_frame_count self) of
           Inl e \<Rightarrow> Inl e
         | Inr frames \<Rightarrow>
        (case permute [0, 3, 1, 2] frames of
           Inl e \<Rightarrow> Inl e
         | Inr frames \<Rightarrow> Inr (frames, label)))))"

text \<open>
  The array of line 53 for a list of decoded frames, and the temporal length that lines
  55 to 59 produce from \<open>n\<close> decoded frames.
\<close>

definition normalized :: "('raw \<Rightarrow> nat list \<Rightarrow> 8 word) \<Rightarrow> 'raw list \<Rightarrow> real ndarray" where
  "normalized interp raws =
     map_cells (\<lambda>x. x / 255) (map_cells (\<lambda>p. real (unat p))
       (np_array (read_frames interp raws [])))"

definition out_len :: "nat \<Rightarrow> int \<Rightarrow> nat" where
  "out_len n target =
     (if int n < target then nat target else if int n > target then slice_len n target else n)"

subsection \<open>Example inputs for the dataset\<close>

text \<open>
  Raw frames are one grey level each; the example interpolation adds the channel number.
  The example dataset has a two-frame video, a four-frame video and a file that cannot be
  opened, with a fixed frame count of 3. The default dataset has the constructor's
  default count of 100 and one file that cannot be opened.
\<close>

definition example_interp :: "8 word \<Rightarrow> nat list \<Rightarrow> 8 word" where
  "example_interp frame ix = (case ix of [h, w, c] \<Rightarrow> frame + of_nat c | _ \<Rightarrow> 0)"

definition example_capture :: "string \<Rightarrow> 8 word capture" where
  "example_capture p =
     (if p = ''data/jump/j1.avi'' then \<lparr>opened = True, stream = [10, 20]\<rparr>
      else if p = ''data/walk/w2.avi'' then \<lparr>opened = True, stream = [250, 0, 51, 102]\<rparr>
      else \<lparr>opened = False, stream = []\<rparr>)"

definition example_dataset :: video_dataset where
  "example_dataset =
     \<lparr>video_paths = [''data/jump/j1.avi'', ''data/walk/w2.avi'', ''data/walk/broken.avi''],
      labels = [0, 1, 1], fixed_frame_count = 3\<rparr>"

definition unreadable_capture :: "string \<Rightarrow> 8 word capture" where
  "unreadable_capture p = \<lparr>opened = False, stream = []\<rparr>"

definition default_dataset :: video_dataset where
  "default_dataset = \<lparr>video_paths = [''missing.avi''], labels = [0], fixed_frame_count = 100\<rparr>"

section \<open>The sequence model: \<^verbatim>\<open>VideoLSTMTransformerModel.forward\<close>\<close>

text \<open>
  The forward pass is followed at the level of tensor shapes: what each layer requires of
  the shape it is given, and the shape it returns. The numbers the layers compute are
  floating-point results of the library and are not modelled. The model object holds the
  three constructor arguments.
\<close>

record sequence_model =
  input_size :: nat
  hidden_size :: nat
  num_classes :: nat

text \<open>
  Lines 20 and 21: unpacking \<^verbatim>\<open>x.size()\<close> into five names needs five axes, and
  \<^verbatim>\<open>x.reshape(batch_size, seq_len, -1)\<close> infers the last extent, which the library
  refuses on a tensor without elements.
\<close>

definition reshape_flat :: "nat list \<Rightarrow> error + nat list" where
  "reshape_flat s =
     (case s of
        [batch_size, seq_len, c, h, w] \<Rightarrow>
          if batch_size * seq_len = 0 then Inl RuntimeError
          else Inr [batch_size, seq_len, c * h * w]
      | _ \<Rightarrow> Inl ValueError)"

text \<open>
  \<^verbatim>\<open>nn.LSTM(input_size, hidden_size, batch_first=True)\<close>: the last extent of the
  input must equal \<open>input_size\<close>, and the sequence must not be empty.
\<close>

definition lstm_shape :: "nat \<Rightarrow> nat \<Rightarrow> nat list \<Rightarrow> error + nat list" where
  "lstm_shape in_size hidden s =
     (case s of
        [b, t, f] \<Rightarrow> if f = in_size \<and> 0 < t then Inr [b, t, hidden] else Inl RuntimeError
      | [t, f] \<Rightarrow> if f = in_size \<and> 0 < t then Inr [t, hidden] else Inl RuntimeError
      | _ \<Rightarrow> Inl RuntimeError)"

text \<open>
  \<^verbatim>\<open>nn.Transformer(d_model, batch_first=True)\<close> applied to a source and a target:
  equal batch extents, and both feature extents equal to \<open>d_model\<close>.
\<close>

definition transformer_shape :: "nat \<Rightarrow> nat list \<Rightarrow> nat list \<Rightarrow> error + nat list" where
  "transformer_shape d_model src tgt =
     (case (src, tgt) of
        ([n, s, e], [n', t, e']) \<Rightarrow>
          if n = n' \<and> e = d_model \<and> e' = d_model then Inr [n', t, d_model]
          else Inl RuntimeError
      | _ \<Rightarrow> Inl RuntimeError)"

text \<open>
  \<^verbatim>\<open>transformer_out[:, -1, :]\<close> and \<^verbatim>\<open>nn.Linear(hidden_size, num_classes)\<close>.
\<close>

definition last_step :: "nat list \<Rightarrow> error + nat list" where
  "last_step s =
     (case s of
        [b, t, f] \<Rightarrow> if t = 0 then Inl IndexError else Inr [b, f]
      | _ \<Rightarrow> Inl IndexError)"

definition linear_shape :: "nat \<Rightarrow> nat \<Rightarrow> nat list \<Rightarrow> error + nat list" where
  "linear_shape in_features out_features s =
     (if s \<noteq> [] \<and> last s = in_features then Inr (butlast s @ [out_features])
      else Inl RuntimeError)"

definition forward_shape :: "sequence_model \<Rightarrow> nat list \<Rightarrow> error + nat list" where
  "forward_shape self x =
     (case reshape_flat x of
        Inl e \<Rightarrow> Inl e
      | Inr x \<Rightarrow>
     (case lstm_shape (input_size self) (hidden_size self) x of
        Inl e \<Rightarrow> Inl e
      | Inr lstm_out \<Rightarrow>
     (case transformer_shape (hidden_size self) lstm_out lstm_out of
        Inl e \<Rightarrow> Inl e
      | Inr transformer_out \<Rightarrow>
     (case last_step transformer_out of
        Inl e \<Rightarrow> Inl e
      | Inr final \<Rightarrow> linear_shape (hidden_size self) (num_classes self) final))))"

text \<open>
  The model that \<^verbatim>\<open>main\<close> constructs (lines 203 and 204), from the defaults of
  \<^verbatim>\<open>VideoBehaviorModel\<close>: \<open>input_size\<close> is 224, the side of a frame, while one time
  step of a batch holds 3 * 224 * 224 features.
\<close>

definition main_model :: sequence_model where
  "main_model = \<lparr>input_size = 224, hidden_size = 512, num_classes = 101\<rparr>"

section \<open>Training and evaluation: \<^verbatim>\<open>train_model\<close> and \<^verbatim>\<open>test_model\<close>\<close>

subsection \<open>The model object and the data loader\<close>

text \<open>
  An \<^verbatim>\<open>nn.Module\<close> as the loops see it: its parameters, of some type \<open>'p\<close>, and
  the mode flag that \<^verbatim>\<open>model.train()\<close> and \<^verbatim>\<open>model.eval()\<close> set. The forward pass
  is a parameter \<open>forward\<close> of the loops: from the parameters, the mode and a batch of
  inputs to one row of logits per sample, or an exception. Moving the model and the
  batches to the device changes no value and is left out.
\<close>

record 'p module =
  params :: 'p
  training :: bool

text \<open>
  A \<^verbatim>\<open>DataLoader\<close>: the length of its dataset, the dataset's item fetch, the batch
  size and the shuffle flag. One pass over the loader draws the order of the samples
  (with \<open>shuffle\<close>, the sampler's permutation \<open>perm\<close> of this pass, applied to
  \<open>0 .. n - 1\<close>; without, \<open>0 .. n - 1\<close> itself), cuts it into batches of
  \<open>batch_size\<close> (the last one may be shorter: \<^verbatim>\<open>drop_last\<close> is off) and fetches every
  batch. Worker processes only prefetch and change no result.
\<close>

record 'x data_loader =
  dataset_len :: nat
  fetch :: "nat \<Rightarrow> error + ('x \<times> nat)"
  batch_size :: nat
  shuffle :: bool

function chunks :: "nat \<Rightarrow> 'a list \<Rightarrow> 'a list list" where
  "chunks k xs = (if k = 0 \<or> xs = [] then [] else take k xs # chunks k (drop k xs))"
  by pat_completeness auto
termination
  by (relation "measure (\<lambda>(k, xs). length xs)") auto

definition sample_order :: "'x data_loader \<Rightarrow> (nat \<Rightarrow> nat) \<Rightarrow> nat list" where
  "sample_order loader perm =
     (if shuffle loader then map perm [0..<dataset_len loader] else [0..<dataset_len loader])"

definition batch_indices :: "'x data_loader \<Rightarrow> (nat \<Rightarrow> nat) \<Rightarrow> nat list list" where
  "batch_indices loader perm = chunks (batch_size loader) (sample_order loader perm)"

text \<open>
\<^verbatim>\<open>len(train_loader)\<close>: the number of batches, rounded up.
\<close>

definition loader_len :: "'x data_loader \<Rightarrow> nat" where
  "loader_len loader = (dataset_len loader + batch_size loader - 1) div batch_size loader"

text \<open>
  Fetching and collating one batch: the first item that raises ends the pass.
\<close>

fun fetch_batch :: "(nat \<Rightarrow> error + ('x \<times> nat)) \<Rightarrow> nat list \<Rightarrow> error + ('x list \<times> nat list)" where
  "fetch_batch get [] = Inr ([], [])"
| "fetch_batch get (i # rest) =
     (case get i of
        Inl e \<Rightarrow> Inl e
      | Inr (x, y) \<Rightarrow>
          (case fetch_batch get rest of
             Inl e \<Rightarrow> Inl e
           | Inr (xs, ys) \<Rightarrow> Inr (x # xs, y # ys)))"

subsection \<open>Predictions and accuracy\<close>

text \<open>
  \<^verbatim>\<open>torch.max(outputs, 1)\<close> gives, for every row, the index of its first maximal
  value, and raises on a row without entries. \<^verbatim>\<open>(predicted == labels).sum().item()\<close>
  counts the equal positions; tensors of different lengths are broadcast when one of them
  has length 1 and make the comparison raise otherwise. The division
  \<^verbatim>\<open>100 * correct / total\<close> raises \<^verbatim>\<open>ZeroDivisionError\<close> on a zero divisor.
\<close>

definition argmax :: "real list \<Rightarrow> nat" where
  "argmax row = length (takeWhile (\<lambda>v. v \<noteq> Max (set row)) row)"

definition torch_max1 :: "real list list \<Rightarrow> error + nat list" where
  "torch_max1 outputs =
     (if list_ex (\<lambda>row. row = []) outputs then Inl IndexError else Inr (map argmax outputs))"

definition eq_sum :: "nat list \<Rightarrow> nat list \<Rightarrow> error + nat" where
  "eq_sum predicted ys =
     (if length predicted = length ys
      then Inr (length (filter (\<lambda>(p, y). p = y) (zip predicted ys)))
      else if length predicted = 1 then Inr (length (filter (\<lambda>y. hd predicted = y) ys))
      else if length ys = 1 then Inr (length (filter (\<lambda>p. p = hd ys) predicted))
      else Inl RuntimeError)"

definition true_div :: "real \<Rightarrow> real \<Rightarrow> error + real" where
  "true_div a b = (if b = 0 then Inl ZeroDivisionError else Inr (a / b))"

subsection \<open>\<^verbatim>\<open>test_model\<close> (lines 156 to 170)\<close>

record counts =
  correct :: nat
  total :: nat

fun eval_batches ::
  "('p \<Rightarrow> bool \<Rightarrow> 'x list \<Rightarrow> error + real list list) \<Rightarrow>
   (nat \<Rightarrow> error + ('x \<times> nat)) \<Rightarrow> 'p module \<Rightarrow> nat list list \<Rightarrow> counts \<Rightarrow>
   error + counts" where
  "eval_batches forward get model [] ct = Inr ct"
| "eval_batches forward get model (idxs # rest) ct =
     (case fetch_batch get idxs of
        Inl e \<Rightarrow> Inl e
      | Inr (inputs, ys) \<Rightarrow>
     (case forward (params model) (training model) inputs of
        Inl e \<Rightarrow> Inl e
      | Inr outputs \<Rightarrow>
     (case torch_max1 outputs of
        Inl e \<Rightarrow> Inl e
      | Inr predicted \<Rightarrow>
     (case eq_sum predicted ys of
        Inl e \<Rightarrow> Inl e
      | Inr hits \<Rightarrow>
          eval_batches forward get model rest
            \<lparr>correct = correct ct + hits, total = total ct + length ys\<rparr>))))"

definition test_model ::
  "('p \<Rightarrow> bool \<Rightarrow> 'x list \<Rightarrow> error + real list list) \<Rightarrow>
   'x data_loader \<Rightarrow> (nat \<Rightarrow> nat) \<Rightarrow> 'p module \<Rightarrow> error + (real \<times> 'p module)" where
  "test_model forward test_loader perm model =
     (let model = model\<lparr>training := False\<rparr> in
      case eval_batches forward (fetch test_loader) model (batch_indices test_loader perm)
             \<lparr>correct = 0, total = 0\<rparr> of
        Inl e \<Rightarrow> Inl e
      | Inr ct \<Rightarrow>
          (case true_div (100 * real (correct ct)) (real (total ct)) of
             Inl e \<Rightarrow> Inl e
           | Inr accuracy \<Rightarrow> Inr (accuracy, model)))"

subsection \<open>\<^verbatim>\<open>train_model\<close> (lines 123 to 153)\<close>

text \<open>
  The loss function is the parameter \<open>criterion\<close>. The parameter \<open>step\<close> stands for
  \<^verbatim>\<open>optimizer.zero_grad()\<close>, \<^verbatim>\<open>loss.backward()\<close> and \<^verbatim>\<open>optimizer.step()\<close>:
  from the optimizer state, the parameters and the batch to the new optimizer state and
  parameters. \<open>train_batches\<close> is the loop over the batches of one epoch,
  \<open>train_epoch\<close> the body of the loop over the epochs, returning the locals at its end,
  and \<open>sampler epoch\<close> the permutation the loader draws in that epoch. The function
  returns the two metric lists; the model and the optimizer it mutated are returned with
  them.
\<close>

record tally = counts +
  running_loss :: real

definition zero_tally :: tally where
  "zero_tally = \<lparr>correct = 0, total = 0, running_loss = 0\<rparr>"

fun train_batches ::
  "('p \<Rightarrow> bool \<Rightarrow> 'x list \<Rightarrow> error + real list list) \<Rightarrow>
   (real list list \<Rightarrow> nat list \<Rightarrow> error + real) \<Rightarrow>
   ('o \<Rightarrow> 'p \<Rightarrow> 'x list \<Rightarrow> nat list \<Rightarrow> 'o \<times> 'p) \<Rightarrow>
   (nat \<Rightarrow> error + ('x \<times> nat)) \<Rightarrow> nat list list \<Rightarrow>
   'p module \<times> 'o \<times> tally \<Rightarrow> error + ('p module \<times> 'o \<times> tally)" where
  "train_batches forward criterion step get [] st = Inr st"
| "train_batches forward criterion step get (idxs # rest) (model, opt, acc) =
     (case fetch_batch get idxs of
        Inl e \<Rightarrow> Inl e
      | Inr (inputs, ys) \<Rightarrow>
     (case forward (params model) (training model) inputs of
        Inl e \<Rightarrow> Inl e
      | Inr outputs \<Rightarrow>
     (case criterion outputs ys of
        Inl e \<Rightarrow> Inl e
      | Inr loss \<Rightarrow>
     (let (opt', p') = step opt (params model) inputs ys;
          model' = model\<lparr>params := p'\<rparr>
      in case torch_max1 outputs of
           Inl e \<Rightarrow> Inl e
         | Inr predicted \<Rightarrow>
        (case eq_sum predicted ys of
           Inl e \<Rightarrow> Inl e
         | Inr hits \<Rightarrow>
             train_batches forward criterion step get rest
               (model', opt',
                \<lparr>correct = correct acc + hits,
                 total = total acc + length ys,
                 running_loss = running_loss acc + loss\<rparr>))))))"

record ('p, 'o) epoch_end =
  end_model :: "'p module"
  end_opt :: 'o
  end_tally :: tally
  mean_loss :: real
  accuracy :: real

definition train_epoch ::
  "('p \<Rightarrow> bool \<Rightarrow> 'x list \<Rightarrow> error + real list list) \<Rightarrow>
   (real list list \<Rightarrow> nat list \<Rightarrow> error + real) \<Rightarrow>
   ('o \<Rightarrow> 'p \<Rightarrow> 'x list \<Rightarrow> nat list \<Rightarrow> 'o \<times> 'p) \<Rightarrow>
   'x data_loader \<Rightarrow> (nat \<Rightarrow> nat) \<Rightarrow> 'p module \<times> 'o \<Rightarrow> error + ('p, 'o) epoch_end" where
  "train_epoch forward criterion step train_loader perm st =
     (case train_batches forward criterion step (fetch train_loader)
             (batch_indices train_loader perm)
             ((fst st)\<lparr>training := True\<rparr>, snd st, zero_tally) of
        Inl e \<Rightarrow> Inl e
      | Inr (model, opt, acc) \<Rightarrow>
     (case true_div (100 * real (correct acc)) (real (total acc)) of
        Inl e \<Rightarrow> Inl e
      | Inr a \<Rightarrow>
     (case true_div (running_loss acc) (real (loader_len train_loader)) of
        Inl e \<Rightarrow> Inl e
      | Inr l \<Rightarrow>
          Inr \<lparr>end_model = model, end_opt = opt, end_tally = acc,
               mean_loss = l, accuracy = a\<rparr>)))"

fun train_epochs ::
  "('p \<Rightarrow> bool \<Rightarrow> 'x list \<Rightarrow> error + real list list) \<Rightarrow>
   (real list list \<Rightarrow> nat list \<Rightarrow> error + real) \<Rightarrow>
   ('o \<Rightarrow> 'p \<Rightarrow> 'x list \<Rightarrow> nat list \<Rightarrow> 'o \<times> 'p) \<Rightarrow>
   'x data_loader \<Rightarrow> (nat \<Rightarrow> nat \<Rightarrow> nat) \<Rightarrow> nat list \<Rightarrow>
   real list \<times> real list \<times> 'p module \<times> 'o \<Rightarrow>
   error + (real list \<times> real list \<times> 'p module \<times> 'o)" where
  "train_epochs forward criterion step train_loader sampler [] st = Inr st"
| "train_epochs forward criterion step train_loader sampler (epoch # rest)
     (train_losses, train_accuracies, model, opt) =
     (case train_epoch forward criterion step train_loader (sampler epoch) (model, opt) of
        Inl e \<Rightarrow> Inl e
      | Inr ep \<Rightarrow>
          train_epochs forward criterion step train_loader sampler rest
            (train_losses @ [mean_loss ep], train_accuracies @ [accuracy ep],
             end_model ep, end_opt ep))"

definition train_model ::
  "('p \<Rightarrow> bool \<Rightarrow> 'x list \<Rightarrow> error + real list list) \<Rightarrow>
   (real list list \<Rightarrow> nat list \<Rightarrow> error + real) \<Rightarrow>
   ('o \<Rightarrow> 'p \<Rightarrow> 'x list \<Rightarrow> nat list \<Rightarrow> 'o \<times> 'p) \<Rightarrow>
   'x data_loader \<Rightarrow> (nat \<Rightarrow> nat \<Rightarrow> nat) \<Rightarrow> int \<Rightarrow> 'p module \<times> 'o \<Rightarrow>
   error + (real list \<times> real list \<times> 'p module \<times> 'o)" where
  "train_model forward criterion step train_loader sampler epochs st =
     train_epochs forward criterion step train_loader sampler [0..<nat epochs]
       ([], [], fst st, snd st)"

text \<open>
  A forward pass that returns one row of logits per sample of the batch, and a
  percentage.
\<close>

definition batch_preserving :: "('p \<Rightarrow> bool \<Rightarrow> 'x list \<Rightarrow> error + real list list) \<Rightarrow> bool" where
  "batch_preserving forward =
     (\<forall>p b xs out. forward p b xs = Inr out \<longrightarrow> length out = length xs)"


subsection \<open>Example inputs for the loops\<close>


definition empty_loader :: "nat data_loader" where
  "empty_loader =
     \<lparr>dataset_len = 0, fetch = (\<lambda>i. Inl IndexError), batch_size = 8, shuffle = False\<rparr>"

definition example_forward :: "nat \<Rightarrow> bool \<Rightarrow> nat list \<Rightarrow> error + real list list" where
  "example_forward p b xs = Inr (map (\<lambda>x. [real p, real x]) xs)"

definition example_criterion :: "real list list \<Rightarrow> nat list \<Rightarrow> error + real" where
  "example_criterion outputs ys = Inr 1"

definition example_step :: "nat \<Rightarrow> nat \<Rightarrow> nat list \<Rightarrow> nat list \<Rightarrow> nat \<times> nat" where
  "example_step opt p xs ys = (Suc opt, Suc p)"

definition example_perm :: "nat \<Rightarrow> nat" where
  "example_perm i = 4 - i"

definition example_module :: "nat module" where
  "example_module = \<lparr>params = 0, training = True\<rparr>"

section \<open>Properties of the dataset indexer\<close>

subsection \<open>Labels, paths and the loops\<close>

lemma update_fresh: "k \<notin> fst ` set d \<Longrightarrow> AList.update k v d = d @ [(k, v)]"
  by (induction d) auto

lemma label_dict_gen:
  "distinct (map fst d @ names) \<Longrightarrow>
   foldl (\<lambda>d (idx, class_name). AList.update class_name idx d) d (List.enumerate n names)
     = d @ zip names [n..<n + length names]"
proof (induction names arbitrary: d n)
  case Nil
  then show ?case by simp
next
  case (Cons a names)
  have fresh: "a \<notin> fst ` set d" using Cons.prems by auto
  have d': "distinct (map fst (d @ [(a, n)]) @ names)" using Cons.prems by auto
  show ?case
  proof -
    have u: "[n..<Suc (n + length names)] = n # [Suc n..<Suc (n + length names)]"
      by (rule upt_conv_Cons) simp
    show ?thesis
      using Cons.IH[OF d', of "Suc n"] fresh
      by (simp add: update_fresh u del: upt_Suc)
  qed
qed

lemma label_dict_distinct:
  "distinct names \<Longrightarrow> label_dict names = zip names [0..<length names]"
  using label_dict_gen[of "[]" names 0] by (simp add: label_dict_def)

lemma endswith_iff: "endswith s suf \<longleftrightarrow> (\<exists>p. s = p @ suf)"
proof
  assume "endswith s suf"
  then have "s = take (length s - length suf) s @ suf"
    by (metis append_take_drop_id endswith_def)
  then show "\<exists>p. s = p @ suf" ..
next
  assume "\<exists>p. s = p @ suf"
  then show "endswith s suf" by (auto simp: endswith_def)
qed

lemma avi_prefix_last:
  "us @ b = ''.avi'' \<Longrightarrow> us \<noteq> [] \<Longrightarrow> last us \<noteq> CHR ''/''"
  by (auto simp: append_eq_Cons_conv)

lemma endswith_sep_append:
  assumes "X = [] \<or> last X = CHR ''/''"
  shows "endswith (X @ b) ''.avi'' = endswith b ''.avi''"
proof
  assume "endswith (X @ b) ''.avi''"
  then obtain p where "X @ b = p @ ''.avi''" by (auto simp: endswith_iff)
  then obtain us where "(X = p @ us \<and> us @ b = ''.avi'') \<or> (X @ us = p \<and> b = us @ ''.avi'')"
    by (auto simp: append_eq_append_conv2)
  then show "endswith b ''.avi''"
  proof
    assume h: "X = p @ us \<and> us @ b = ''.avi''"
    show ?thesis
    proof (cases "us = []")
      case True
      with h show ?thesis by (simp add: endswith_def)
    next
      case False
      with h have "last X = last us" by simp
      moreover have "X \<noteq> []" using h False by simp
      ultimately show ?thesis using assms avi_prefix_last[of us b] h False by auto
    qed
  next
    assume "X @ us = p \<and> b = us @ ''.avi''"
    then show ?thesis by (auto simp: endswith_iff)
  qed
next
  assume "endswith b ''.avi''"
  then obtain q where "b = q @ ''.avi''" by (auto simp: endswith_iff)
  then have "X @ b = (X @ q) @ ''.avi''" by simp
  then show "endswith (X @ b) ''.avi''" unfolding endswith_iff by blast
qed

lemma endswith_join: "endswith (path_join a b) ''.avi'' = endswith b ''.avi''"
proof -
  have 1: "endswith (a @ ''/'' @ b) ''.avi'' = endswith b ''.avi''"
    using endswith_sep_append[of "a @ ''/''" b] by simp
  have 2: "a = [] \<or> last a = CHR ''/'' \<Longrightarrow> endswith (a @ b) ''.avi'' = endswith b ''.avi''"
    by (rule endswith_sep_append)
  consider (abs) "b \<noteq> [] \<and> hd b = CHR ''/''"
    | (app) "\<not> (b \<noteq> [] \<and> hd b = CHR ''/'')" "a = [] \<or> last a = CHR ''/''"
    | (sep) "\<not> (b \<noteq> [] \<and> hd b = CHR ''/'')" "\<not> (a = [] \<or> last a = CHR ''/'')"
    by blast
  then show ?thesis
  proof cases
    case abs
    then have "path_join a b = b" by (auto simp: path_join_def)
    then show ?thesis by (simp only:)
  next
    case app
    then have "path_join a b = a @ b" by (auto simp: path_join_def)
    then show ?thesis using 2[OF app(2)] by (simp only:)
  next
    case sep
    then have "path_join a b = a @ ''/'' @ b" by (auto simp: path_join_def)
    then show ?thesis using 1 by (simp only:)
  qed
qed

lemma assign_all_append:
  "assign_all rand (vs @ ws) st = assign_all rand ws (assign_all rand vs st)"
  by (induction vs arbitrary: st) auto

lemma split_class_assign_all:
  "split_class rand class_path label names st =
     assign_all rand
       (map (\<lambda>video_name. (path_join class_path video_name, label))
          (filter (\<lambda>video_name. endswith video_name ''.avi'') names)) st"
  by (induction names arbitrary: st) auto

lemma split_classes_assign_all:
  assumes "\<forall>cl \<in> set lbls. isdir fs (path_join video_folder (fst cl))"
  shows "split_classes rand fs video_folder lbls st =
           Inr (assign_all rand (video_files fs video_folder lbls) st)"
  using assms
proof (induction lbls arbitrary: st)
  case Nil
  then show ?case by (simp add: video_files_def)
next
  case (Cons cl lbls)
  obtain c l where cl: "cl = (c, l)" by (cases cl)
  from Cons.prems cl obtain names where names: "fs (path_join video_folder c) = Some (Dir names)"
    by (auto simp: isdir_def split: option.splits node.splits)
  have ld: "listdir fs (path_join video_folder c) = Inr names"
    using names by (simp add: listdir_def)
  have rest: "\<forall>cl \<in> set lbls. isdir fs (path_join video_folder (fst cl))"
    using Cons.prems by simp
  show ?case
    using Cons.IH[OF rest] ld cl
    by (simp add: video_files_def class_videos_def split_class_assign_all assign_all_append)
qed

lemma routed_Nil [simp]: "routed b [] ds = []"
  by (simp add: routed_def)

lemma routed_Cons [simp]:
  "routed b (v # vs) (d # ds) = (if (d < 0.8) = b then v # routed b vs ds else routed b vs ds)"
  by (simp add: routed_def)

lemma assign_all_routed:
  "assign_all rand vs st =
     add_routed st
       (routed True vs (draws rand (rng st) (length vs)))
       (routed False vs (draws rand (rng st) (length vs)))
       (after_draws rand (rng st) (length vs))"
proof (induction vs arbitrary: st)
  case Nil
  show ?case by (simp add: add_routed_def)
next
  case (Cons v vs)
  show ?case
    by (simp add: Cons.IH assign_video_def add_routed_def split_beta)
qed

lemma length_draws [simp]: "length (draws rand g n) = n"
  by (induction n arbitrary: g) auto

lemma label_dict_keys_gen:
  "fst ` set (foldl (\<lambda>d (idx, class_name). AList.update class_name idx d) d (List.enumerate n names))
     = fst ` set d \<union> set names"
  by (induction names arbitrary: d n) (auto simp: AList.dom_update)

lemma label_dict_keys: "fst ` set (label_dict names) = set names"
  by (simp add: label_dict_def label_dict_keys_gen)

lemma class_labels_isdir:
  assumes "class_labels fs video_folder = Inr lbls" "cl \<in> set lbls"
  shows "isdir fs (path_join video_folder (fst cl))"
proof -
  from assms(1) obtain entries where e: "listdir fs video_folder = Inr entries"
    and l: "lbls = label_dict (sort (filter (\<lambda>folder. isdir fs (path_join video_folder folder)) entries))"
    by (auto simp: class_labels_def class_names_def split: sum.splits)
  have "fst cl \<in> fst ` set lbls" using assms(2) by simp
  then show ?thesis unfolding l label_dict_keys by simp
qed

lemma class_labels_total:
  "listdir fs video_folder = Inr entries \<Longrightarrow>
   class_labels fs video_folder =
     Inr (label_dict (sort (filter (\<lambda>folder. isdir fs (path_join video_folder folder)) entries)))"
  by (simp add: class_labels_def class_names_def)

lemma prepare_data_routed:
  assumes "class_labels fs video_folder = Inr lbls"
  shows "prepare_data rand fs video_folder g =
     Inr (add_routed (empty_split g)
       (routed True (video_files fs video_folder lbls)
          (draws rand g (length (video_files fs video_folder lbls))))
       (routed False (video_files fs video_folder lbls)
          (draws rand g (length (video_files fs video_folder lbls))))
       (after_draws rand g (length (video_files fs video_folder lbls))))"
proof -
  have "\<forall>cl \<in> set lbls. isdir fs (path_join video_folder (fst cl))"
    using class_labels_isdir[OF assms] by blast
  then show ?thesis
    using assms
    by (simp add: prepare_data_def split_classes_assign_all assign_all_routed empty_split_def)
qed

lemma routed_subset: "set (routed b vs ds) \<subseteq> set vs"
  by (auto simp: routed_def dest: set_zip_leftD)

lemma routed_partition:
  "length ds = length vs \<Longrightarrow> mset (routed True vs ds) + mset (routed False vs ds) = mset vs"
proof (induction vs arbitrary: ds)
  case Nil
  then show ?case by simp
next
  case (Cons v vs)
  then obtain d ds' where "ds = d # ds'" by (cases ds) auto
  with Cons show ?case by auto
qed

lemma routed_disjoint:
  "length ds = length vs \<Longrightarrow> distinct (map fst vs) \<Longrightarrow>
   fst ` set (routed True vs ds) \<inter> fst ` set (routed False vs ds) = {}"
proof (induction vs arbitrary: ds)
  case Nil
  then show ?case by simp
next
  case (Cons v vs)
  then obtain d ds' where ds: "ds = d # ds'" by (cases ds) auto
  have sub: "\<And>b. fst ` set (routed b vs ds') \<subseteq> fst ` set vs"
    using routed_subset by blast
  have "fst v \<notin> fst ` set vs" using Cons.prems by auto
  with sub have "\<And>b. fst v \<notin> fst ` set (routed b vs ds')" by blast
  moreover have "fst ` set (routed True vs ds') \<inter> fst ` set (routed False vs ds') = {}"
    using Cons ds by auto
  ultimately show ?case unfolding ds by auto
qed

lemma full_path:
  assumes "plain_name c" "plain_name n"
  shows "path_join (path_join base c) n = path_join base [] @ c @ ''/'' @ n"
proof -
  have c: "c \<noteq> []" "hd c \<noteq> CHR ''/''" "last c \<noteq> CHR ''/''"
    using assms(1) by (metis plain_name_def, metis hd_in_set plain_name_def,
        metis last_in_set plain_name_def)
  have n: "n \<noteq> []" "hd n \<noteq> CHR ''/''"
    using assms(2) by (metis plain_name_def, metis hd_in_set plain_name_def)
  have 1: "path_join base c = path_join base [] @ c"
    using c by (simp add: path_join_def)
  have 2: "path_join base [] @ c \<noteq> []" "last (path_join base [] @ c) \<noteq> CHR ''/''"
    using c by simp_all
  show ?thesis unfolding 1 using 2 n by (simp add: path_join_def[of "path_join base [] @ c" n])
qed

lemma first_sep_unique:
  "x \<notin> set c \<Longrightarrow> x \<notin> set c' \<Longrightarrow> c @ x # n = c' @ x # n' \<Longrightarrow> c = c' \<and> n = n'"
proof (induction c arbitrary: c')
  case Nil
  then show ?case by (cases c') auto
next
  case (Cons a c)
  then show ?case by (cases c') auto
qed

lemma full_path_inj:
  assumes "plain_name c" "plain_name n" "plain_name c'" "plain_name n'"
    and "path_join (path_join base c) n = path_join (path_join base c') n'"
  shows "c = c' \<and> n = n'"
proof -
  have eq: "c @ CHR ''/'' # n = c' @ CHR ''/'' # n'"
    using assms(5) by (simp add: full_path[OF assms(1,2)] full_path[OF assms(3,4)])
  have 1: "CHR ''/'' \<notin> set c"
    using assms(1) unfolding plain_name_def by blast
  have 2: "CHR ''/'' \<notin> set c'"
    using assms(3) unfolding plain_name_def by blast
  show ?thesis by (rule first_sep_unique[OF 1 2 eq])
qed

lemma distinct_concat_map:
  assumes "distinct ks"
    and "\<And>k. k \<in> set ks \<Longrightarrow> distinct (f k)"
    and "\<And>k k'. k \<in> set ks \<Longrightarrow> k' \<in> set ks \<Longrightarrow> k \<noteq> k' \<Longrightarrow> set (f k) \<inter> set (f k') = {}"
  shows "distinct (concat (map f ks))"
  using assms
proof (induction ks)
  case Nil
  then show ?case by simp
next
  case (Cons k ks)
  have "set (f k) \<inter> set (f k') = {}" if "k' \<in> set ks" for k'
    using Cons.prems(1) Cons.prems(3)[of k k'] that by auto
  then have "set (f k) \<inter> \<Union> (set ` f ` set ks) = {}" by blast
  moreover have "distinct (concat (map f ks))"
    using Cons by auto
  ultimately show ?case using Cons.prems(2)[of k] by simp
qed

lemma video_files_distinct:
  assumes wf: "well_formed_tree fs video_folder"
    and lbls: "class_labels fs video_folder = Inr lbls"
  shows "distinct (map fst (video_files fs video_folder lbls))"
proof -
  from wf obtain entries where e: "listdir fs video_folder = Inr entries"
    and de: "distinct entries" and pe: "\<And>c. c \<in> set entries \<Longrightarrow> plain_name c"
    and inner: "\<And>c names. c \<in> set entries \<Longrightarrow> listdir fs (path_join video_folder c) = Inr names
                  \<Longrightarrow> distinct names \<and> (\<forall>n \<in> set names. plain_name n)"
    by (auto simp: well_formed_tree_def list_all_iff split: sum.splits)
  define cs where "cs = sort (filter (\<lambda>folder. isdir fs (path_join video_folder folder)) entries)"
  have dcs: "distinct cs" and scs: "set cs \<subseteq> set entries"
    using de by (auto simp: cs_def)
  have l: "lbls = zip cs [0..<length cs]"
    using lbls e dcs by (simp add: class_labels_total cs_def[symmetric] label_dict_distinct)
  have keys: "map fst lbls = cs" unfolding l by simp
  have dk: "distinct (map fst lbls)" using keys dcs by simp
  have dl: "distinct lbls" and inj: "inj_on fst (set lbls)"
    using dk by (simp_all add: distinct_map)
  define f where "f = (\<lambda>cl. map fst (class_videos fs video_folder cl))"
  have mf: "map fst (video_files fs video_folder lbls) = concat (map f lbls)"
    by (simp add: video_files_def f_def map_concat comp_def)
  have key_in: "fst cl \<in> set entries" if "cl \<in> set lbls" for cl
  proof -
    have "fst cl \<in> set (map fst lbls)" using that by simp
    then show ?thesis using keys scs by auto
  qed
  have fset: "\<exists>n names. p = path_join (path_join video_folder (fst cl)) n \<and>
                 listdir fs (path_join video_folder (fst cl)) = Inr names \<and> n \<in> set names"
    if "p \<in> set (f cl)" for cl p
  proof (cases "listdir fs (path_join video_folder (fst cl))")
    case (Inl a)
    with that show ?thesis by (simp add: f_def class_videos_def)
  next
    case (Inr names)
    with that show ?thesis by (auto simp: f_def class_videos_def)
  qed
  have d1: "distinct (f cl)" if "cl \<in> set lbls" for cl
  proof (cases "listdir fs (path_join video_folder (fst cl))")
    case (Inl a)
    then show ?thesis by (simp add: f_def class_videos_def)
  next
    case (Inr names)
    have dn: "distinct names" and pn: "\<forall>n \<in> set names. plain_name n"
      using inner[OF key_in[OF that] Inr] by simp_all
    have pc: "plain_name (fst cl)" using pe key_in[OF that] by simp
    have "inj_on (path_join (path_join video_folder (fst cl))) (set names)"
    proof (rule inj_onI)
      fix x y
      assume x: "x \<in> set names" and y: "y \<in> set names"
        and eq: "path_join (path_join video_folder (fst cl)) x
                   = path_join (path_join video_folder (fst cl)) y"
      have "plain_name x" "plain_name y" using pn x y by simp_all
      from full_path_inj[OF pc this(1) pc this(2) eq] show "x = y" by simp
    qed
    then have "inj_on (path_join (path_join video_folder (fst cl)))
                 (set (filter (\<lambda>video_name. endswith video_name ''.avi'') names))"
      by (rule inj_on_subset) auto
    then show ?thesis
      using dn Inr by (simp add: f_def class_videos_def comp_def distinct_map)
  qed
  have d2: "set (f cl) \<inter> set (f cl') = {}"
    if "cl \<in> set lbls" "cl' \<in> set lbls" "cl \<noteq> cl'" for cl cl'
  proof -
    have ne: "fst cl \<noteq> fst cl'"
      using that inj by (auto dest: inj_onD)
    show ?thesis
    proof (rule ccontr)
      assume "set (f cl) \<inter> set (f cl') \<noteq> {}"
      then obtain p where p: "p \<in> set (f cl)" "p \<in> set (f cl')" by blast
      from fset[OF p(1)] obtain n names where
        1: "p = path_join (path_join video_folder (fst cl)) n"
           "listdir fs (path_join video_folder (fst cl)) = Inr names" "n \<in> set names"
        by blast
      from fset[OF p(2)] obtain n' names' where
        2: "p = path_join (path_join video_folder (fst cl')) n'"
           "listdir fs (path_join video_folder (fst cl')) = Inr names'" "n' \<in> set names'"
        by blast
      have pn: "plain_name n" using inner[OF key_in[OF that(1)] 1(2)] 1(3) by simp
      have pn': "plain_name n'" using inner[OF key_in[OF that(2)] 2(2)] 2(3) by simp
      have pc: "plain_name (fst cl)" using pe key_in[OF that(1)] by simp
      have pc': "plain_name (fst cl')" using pe key_in[OF that(2)] by simp
      have eq: "path_join (path_join video_folder (fst cl)) n
                  = path_join (path_join video_folder (fst cl')) n'"
        using 1(1) 2(1) by simp
      from full_path_inj[OF pc pn pc' pn' eq] ne show False by simp
    qed
  qed
  show ?thesis unfolding mf by (rule distinct_concat_map[OF dl d1 d2])
qed

subsection \<open>The claims about \<open>prepare_data\<close>\<close>

text \<open>
  Claim C4. Label assignment is a function of the set of class-folder names alone. Take
  two runs (two filesystem states, two roots) whose root listings hold each name once
  and have the same set \<open>S\<close> of entries that are directories. Then both runs build
  the same label dict, and it gives every class its index in the sorted list of \<open>S\<close>:
  the order in which the filesystem enumerates the folders has no influence.
\<close>

theorem label_assignment_order_independent:
  assumes "listdir fs1 folder1 = Inr entries1" and "listdir fs2 folder2 = Inr entries2"
    and "distinct entries1" and "distinct entries2"
    and "{f \<in> set entries1. isdir fs1 (path_join folder1 f)} = S"
    and "{f \<in> set entries2. isdir fs2 (path_join folder2 f)} = S"
  shows "class_labels fs1 folder1 = Inr (zip (sorted_list_of_set S) [0..<card S]) \<and>
         class_labels fs2 folder2 = class_labels fs1 folder1"
proof -
  have sorted_names: "sort (filter P entries) = sorted_list_of_set {f \<in> set entries. P f}"
    if "distinct entries" for P and entries :: "string list"
  proof -
    have "sorted_list_of_set (set (filter P entries)) = sort (remdups (filter P entries))"
      by (rule sorted_list_of_set_sort_remdups)
    moreover have "remdups (filter P entries) = filter P entries"
      using that by (simp add: distinct_remdups_id)
    ultimately show ?thesis by simp
  qed
  have len: "length (sorted_list_of_set S) = card S"
    by simp
  have 1: "class_labels fs1 folder1 = Inr (zip (sorted_list_of_set S) [0..<card S])"
    using assms(1,3,5) len
    by (simp add: class_labels_total sorted_names label_dict_distinct)
  have 2: "class_labels fs2 folder2 = Inr (zip (sorted_list_of_set S) [0..<card S])"
    using assms(2,4,6) len
    by (simp add: class_labels_total sorted_names label_dict_distinct)
  show ?thesis using 1 2 by simp
qed

theorem label_assignment_order_independent_witness:
  "listdir example_tree ''data'' = Inr [''walk'', ''notes.txt'', ''jump''] \<and>
   listdir example_tree_reordered ''data'' = Inr [''jump'', ''walk'', ''notes.txt''] \<and>
   distinct [''walk'', ''notes.txt'', ''jump''] \<and>
   distinct [''jump'', ''walk'', ''notes.txt''] \<and>
   {f \<in> set [''walk'', ''notes.txt'', ''jump'']. isdir example_tree (path_join ''data'' f)}
     = {''jump'', ''walk''} \<and>
   {f \<in> set [''jump'', ''walk'', ''notes.txt'']. isdir example_tree_reordered (path_join ''data'' f)}
     = {''jump'', ''walk''} \<and>
   class_labels example_tree ''data'' = Inr [(''jump'', 0), (''walk'', 1)] \<and>
   class_labels example_tree_reordered ''data'' = class_labels example_tree ''data''"
proof -
  have h1: "listdir example_tree ''data'' = Inr [''walk'', ''notes.txt'', ''jump'']"
    by (simp add: listdir_def example_tree_def)
  have h2: "listdir example_tree_reordered ''data'' = Inr [''jump'', ''walk'', ''notes.txt'']"
    by (simp add: listdir_def example_tree_reordered_def)
  have h3: "distinct [''walk'', ''notes.txt'', ''jump'']" by simp
  have h4: "distinct [''jump'', ''walk'', ''notes.txt'']" by simp
  have h5: "{f \<in> set [''walk'', ''notes.txt'', ''jump'']. isdir example_tree (path_join ''data'' f)}
              = {''jump'', ''walk''}"
    by (auto simp: isdir_def path_join_def example_tree_def)
  have h6: "{f \<in> set [''jump'', ''walk'', ''notes.txt''].
               isdir example_tree_reordered (path_join ''data'' f)} = {''jump'', ''walk''}"
    by (auto simp: isdir_def path_join_def example_tree_reordered_def)
  have ev: "class_labels example_tree ''data'' = Inr [(''jump'', 0), (''walk'', 1)]"
    by (simp add: class_labels_def class_names_def label_dict_def listdir_def isdir_def
        path_join_def example_tree_def)
  from label_assignment_order_independent[OF h1 h2 h3 h4 h5 h6]
  have "class_labels example_tree_reordered ''data'' = class_labels example_tree ''data''"
    by simp
  with h1 h2 h3 h4 h5 h6 ev show ?thesis by blast
qed

lemma add_routed_empty:
  "add_routed (empty_split g) tr te g' =
     \<lparr>train_paths = map fst tr, test_paths = map fst te,
      train_labels = map snd tr, test_labels = map snd te, rng = g'\<rparr>"
  by (simp add: add_routed_def empty_split_def)

text \<open>
  Claim C5. Whenever the root folder can be listed, \<open>prepare_data\<close> returns, and
  with \<open>vs\<close> the enumerated video files (path and label, in visiting order) and
  \<open>ds\<close> their draws: the train lists hold exactly the videos whose draw is below 0.8,
  the test lists exactly the others, each with its label at the same position of the
  parallel label list. So every enumerated video is in exactly one of the two sets (the
  two sets together are the enumerated videos, as multisets), and in a well-formed tree
  no path appears in both.
\<close>

theorem prepare_data_assigns_each_video_once:
  assumes "listdir fs video_folder = Inr entries"
  shows "\<exists>lbls st.
      class_labels fs video_folder = Inr lbls \<and>
      prepare_data rand fs video_folder g = Inr st \<and>
      (let vs = video_files fs video_folder lbls;
           ds = draws rand g (length vs)
       in zip (train_paths st) (train_labels st) = routed True vs ds \<and>
          zip (test_paths st) (test_labels st) = routed False vs ds \<and>
          length (train_labels st) = length (train_paths st) \<and>
          length (test_labels st) = length (test_paths st) \<and>
          mset (zip (train_paths st) (train_labels st))
            + mset (zip (test_paths st) (test_labels st)) = mset vs \<and>
          (well_formed_tree fs video_folder \<longrightarrow>
             set (train_paths st) \<inter> set (test_paths st) = {}))"
proof -
  define lbls where
    "lbls = label_dict (sort (filter (\<lambda>folder. isdir fs (path_join video_folder folder)) entries))"
  define vs where "vs = video_files fs video_folder lbls"
  define ds where "ds = draws rand g (length vs)"
  define st where
    "st = add_routed (empty_split g) (routed True vs ds) (routed False vs ds)
            (after_draws rand g (length vs))"
  have cl: "class_labels fs video_folder = Inr lbls"
    using assms by (simp add: class_labels_total lbls_def)
  have pd: "prepare_data rand fs video_folder g = Inr st"
    unfolding st_def ds_def vs_def by (rule prepare_data_routed[OF cl])
  have tp: "train_paths st = map fst (routed True vs ds)"
    and tl: "train_labels st = map snd (routed True vs ds)"
    and ep: "test_paths st = map fst (routed False vs ds)"
    and el: "test_labels st = map snd (routed False vs ds)"
    by (simp_all add: st_def add_routed_empty)
  have len: "length ds = length vs" by (simp add: ds_def)
  have z1: "zip (train_paths st) (train_labels st) = routed True vs ds"
    unfolding tp tl by (rule zip_map_fst_snd)
  have z2: "zip (test_paths st) (test_labels st) = routed False vs ds"
    unfolding ep el by (rule zip_map_fst_snd)
  have l1: "length (train_labels st) = length (train_paths st)"
    unfolding tp tl by simp
  have l2: "length (test_labels st) = length (test_paths st)"
    unfolding ep el by simp
  have part: "mset (zip (train_paths st) (train_labels st))
                + mset (zip (test_paths st) (test_labels st)) = mset vs"
    unfolding z1 z2 by (rule routed_partition[OF len])
  have disj: "set (train_paths st) \<inter> set (test_paths st) = {}"
    if "well_formed_tree fs video_folder"
  proof -
    have "distinct (map fst vs)"
      unfolding vs_def by (rule video_files_distinct[OF that cl])
    from routed_disjoint[OF len this] show ?thesis
      unfolding tp ep by simp
  qed
  show ?thesis
    using cl pd z1 z2 l1 l2 part disj
    unfolding Let_def vs_def[symmetric] ds_def[symmetric]
    by (intro exI[of _ lbls] exI[of _ st]) (simp add: vs_def[symmetric] ds_def[symmetric])
qed

theorem prepare_data_assigns_each_video_once_witness:
  "listdir example_tree ''data'' = Inr [''walk'', ''notes.txt'', ''jump''] \<and>
   well_formed_tree example_tree ''data'' \<and>
   prepare_data example_rand example_tree ''data'' 0 =
     Inr \<lparr>train_paths = [''data/jump/j1.avi'', ''data/walk/w2.avi''],
          test_paths = [''data/walk/w1.avi''],
          train_labels = [0, 1], test_labels = [1], rng = 3\<rparr> \<and>
   mset [(''data/jump/j1.avi'', 0::nat), (''data/walk/w2.avi'', 1)] + mset [(''data/walk/w1.avi'', 1)]
     = mset (video_files example_tree ''data'' [(''jump'', 0), (''walk'', 1)]) \<and>
   set [''data/jump/j1.avi'', ''data/walk/w2.avi''] \<inter> set [''data/walk/w1.avi''] = {}"
proof -
  have h: "listdir example_tree ''data'' = Inr [''walk'', ''notes.txt'', ''jump'']"
    by (simp add: listdir_def example_tree_def)
  have wf: "well_formed_tree example_tree ''data''"
    by (simp add: well_formed_tree_def listdir_def path_join_def plain_name_def example_tree_def)
  have cl: "class_labels example_tree ''data'' = Inr [(''jump'', 0), (''walk'', 1)]"
    by (simp add: class_labels_def class_names_def label_dict_def listdir_def isdir_def
        path_join_def example_tree_def)
  have ev: "prepare_data example_rand example_tree ''data'' 0 =
     Inr \<lparr>train_paths = [''data/jump/j1.avi'', ''data/walk/w2.avi''],
          test_paths = [''data/walk/w1.avi''],
          train_labels = [0, 1], test_labels = [1], rng = 3\<rparr>"
    unfolding prepare_data_def cl
    by (simp add: listdir_def path_join_def example_tree_def endswith_def
        assign_video_def example_rand_def empty_split_def)
  from prepare_data_assigns_each_video_once[OF h, of example_rand 0]
  obtain lbls st where
    1: "class_labels example_tree ''data'' = Inr lbls"
    and 2: "prepare_data example_rand example_tree ''data'' 0 = Inr st"
    and 3: "mset (zip (train_paths st) (train_labels st))
              + mset (zip (test_paths st) (test_labels st))
            = mset (video_files example_tree ''data'' lbls)"
    and 4: "well_formed_tree example_tree ''data'' \<longrightarrow>
              set (train_paths st) \<inter> set (test_paths st) = {}"
    unfolding Let_def by blast
  have lbls: "lbls = [(''jump'', 0), (''walk'', 1)]" using 1 cl by simp
  have st: "st = \<lparr>train_paths = [''data/jump/j1.avi'', ''data/walk/w2.avi''],
          test_paths = [''data/walk/w1.avi''],
          train_labels = [0, 1], test_labels = [1], rng = 3\<rparr>"
    using 2 ev by simp
  have 5: "mset [(''data/jump/j1.avi'', 0::nat), (''data/walk/w2.avi'', 1)]
             + mset [(''data/walk/w1.avi'', 1)]
           = mset (video_files example_tree ''data'' [(''jump'', 0), (''walk'', 1)])"
    using 3 unfolding lbls st by simp
  have 6: "set [''data/jump/j1.avi'', ''data/walk/w2.avi''] \<inter> set [''data/walk/w1.avi''] = {}"
    using 4 wf unfolding st by simp
  from h wf ev 5 6 show ?thesis by blast
qed

lemma video_files_avi:
  assumes "v \<in> set (video_files fs video_folder lbls)"
  shows "endswith (fst v) ''.avi''"
proof -
  from assms obtain cl where "v \<in> set (class_videos fs video_folder cl)"
    by (auto simp: video_files_def)
  then show ?thesis
    by (cases "listdir fs (path_join video_folder (fst cl))")
       (auto simp: class_videos_def endswith_join)
qed

text \<open>
  Claim C10. Only names that end with \<^verbatim>\<open>.avi\<close> are indexed: for every directory
  tree whose root can be listed, \<open>prepare_data\<close> returns, and a name in a folder below the
  root that does not end with \<^verbatim>\<open>.avi\<close> has its path in neither the train nor the
  test paths; every path that is returned ends with \<^verbatim>\<open>.avi\<close>.
\<close>

theorem prepare_data_skips_non_avi:
  assumes "listdir fs video_folder = Inr entries"
    and "listdir fs (path_join video_folder video_class) = Inr names"
    and "video_name \<in> set names"
    and "\<not> endswith video_name ''.avi''"
  shows "\<exists>st. prepare_data rand fs video_folder g = Inr st \<and>
           path_join (path_join video_folder video_class) video_name \<notin> set (train_paths st) \<and>
           path_join (path_join video_folder video_class) video_name \<notin> set (test_paths st) \<and>
           (\<forall>p \<in> set (train_paths st) \<union> set (test_paths st). endswith p ''.avi'')"
proof -
  define lbls where
    "lbls = label_dict (sort (filter (\<lambda>folder. isdir fs (path_join video_folder folder)) entries))"
  define vs where "vs = video_files fs video_folder lbls"
  define ds where "ds = draws rand g (length vs)"
  define st where
    "st = add_routed (empty_split g) (routed True vs ds) (routed False vs ds)
            (after_draws rand g (length vs))"
  have cl: "class_labels fs video_folder = Inr lbls"
    using assms(1) by (simp add: class_labels_total lbls_def)
  have pd: "prepare_data rand fs video_folder g = Inr st"
    unfolding st_def ds_def vs_def by (rule prepare_data_routed[OF cl])
  have sub: "set (train_paths st) \<union> set (test_paths st) \<subseteq> fst ` set vs"
    using routed_subset[of True vs ds] routed_subset[of False vs ds]
    by (auto simp: st_def add_routed_empty)
  have avi: "endswith p ''.avi''" if "p \<in> set (train_paths st) \<union> set (test_paths st)" for p
  proof -
    from that sub obtain v where "v \<in> set vs" "p = fst v" by blast
    then show ?thesis using video_files_avi[of v fs video_folder lbls] by (simp add: vs_def)
  qed
  have no: "\<not> endswith (path_join (path_join video_folder video_class) video_name) ''.avi''"
    using assms(4) by (simp add: endswith_join)
  have "path_join (path_join video_folder video_class) video_name
          \<notin> set (train_paths st) \<union> set (test_paths st)"
    using avi no by blast
  then show ?thesis using pd avi by blast
qed

theorem prepare_data_skips_non_avi_witness:
  "listdir example_tree ''data'' = Inr [''walk'', ''notes.txt'', ''jump''] \<and>
   listdir example_tree (path_join ''data'' ''walk'') = Inr [''w1.avi'', ''w2.avi'', ''readme.md''] \<and>
   ''readme.md'' \<in> set [''w1.avi'', ''w2.avi'', ''readme.md''] \<and>
   \<not> endswith ''readme.md'' ''.avi'' \<and>
   (\<exists>st. prepare_data example_rand example_tree ''data'' 0 = Inr st \<and>
      ''data/walk/readme.md'' \<notin> set (train_paths st) \<and>
      ''data/walk/readme.md'' \<notin> set (test_paths st))"
proof -
  have h1: "listdir example_tree ''data'' = Inr [''walk'', ''notes.txt'', ''jump'']"
    by (simp add: listdir_def example_tree_def)
  have h2: "listdir example_tree (path_join ''data'' ''walk'')
              = Inr [''w1.avi'', ''w2.avi'', ''readme.md'']"
    by (simp add: listdir_def path_join_def example_tree_def)
  have h3: "''readme.md'' \<in> set [''w1.avi'', ''w2.avi'', ''readme.md'']" by simp
  have h4: "\<not> endswith ''readme.md'' ''.avi''" by (simp add: endswith_def)
  have p: "path_join (path_join ''data'' ''walk'') ''readme.md'' = ''data/walk/readme.md''"
    by (simp add: path_join_def)
  from prepare_data_skips_non_avi[OF h1 h2 h3 h4, of example_rand 0]
  have "\<exists>st. prepare_data example_rand example_tree ''data'' 0 = Inr st \<and>
      ''data/walk/readme.md'' \<notin> set (train_paths st) \<and>
      ''data/walk/readme.md'' \<notin> set (test_paths st)"
    unfolding p by blast
  with h1 h2 h3 h4 show ?thesis by blast
qed

section \<open>Properties of the video dataset\<close>

subsection \<open>The steps of \<^verbatim>\<open>__getitem__\<close>\<close>

lemma read_frames_eq: "read_frames interp raws frames = frames @ map (cv2_resize interp) raws"
  by (induction raws arbitrary: frames) auto

lemma getitem_unfold:
  assumes "py_index (video_paths self) idx = Inr video_path"
    and "py_index (labels self) idx = Inr label"
  shows "getitem VideoCapture interp self idx =
     (case fit_length (normalized interp (decoded (VideoCapture video_path)))
             (fixed_frame_count self) of
        Inl e \<Rightarrow> Inl e
      | Inr frames \<Rightarrow>
          (case permute [0, 3, 1, 2] frames of
             Inl e \<Rightarrow> Inl e
           | Inr frames \<Rightarrow> Inr (frames, label)))"
  using assms by (simp add: getitem_def normalized_def)

lemma normalized_Nil: "shape (normalized interp []) = [0]"
  by (simp add: normalized_def np_array_def map_cells_def)

lemma normalized_shape:
  "raws \<noteq> [] \<Longrightarrow> shape (normalized interp raws) = [length raws, 224, 224, 3]"
  by (cases raws) (simp_all add: normalized_def np_array_def map_cells_def read_frames_eq cv2_resize_def)

lemma np_array_cell:
  "frames \<noteq> [] \<Longrightarrow> cell (np_array frames) (t # rest) =
     (if t < length frames then cell (frames ! t) rest else 0)"
  by (cases frames) (simp_all add: np_array_def)

lemma normalized_cell:
  assumes "raws \<noteq> []"
  shows "cell (normalized interp raws) [i, h, w, c] =
     (if i < length raws then real (unat (interp (raws ! i) [h, w, c])) / 255 else 0)"
proof -
  have ne: "map (cv2_resize interp) raws \<noteq> []" using assms by simp
  show ?thesis
    by (simp add: normalized_def map_cells_def read_frames_eq np_array_cell[OF ne] cv2_resize_def)
qed

lemma fit_length_empty:
  "fit_length (normalized interp []) target =
     (if 0 < target then Inl ValueError else Inr (normalized interp []))"
  using normalized_Nil[of interp]
  by (auto simp: fit_length_def len_nd_def np_pad_def Let_def slice_to_def slice_len_def
      intro!: ndarray.equality)

lemma permute_1d: "length (shape a) = 1 \<Longrightarrow> permute [0, 3, 1, 2] a = Inl RuntimeError"
  by (simp add: permute_def)

lemma fit_length_frames:
  assumes "raws \<noteq> []"
  shows "\<exists>fr. fit_length (normalized interp raws) target = Inr fr \<and>
           shape fr = [out_len (length raws) target, 224, 224, 3] \<and>
           (\<forall>i h w c. h < 224 \<longrightarrow> w < 224 \<longrightarrow> c < 3 \<longrightarrow>
              cell fr [i, h, w, c] =
                (if i < length raws then real (unat (interp (raws ! i) [h, w, c])) / 255 else 0))"
proof -
  have sh: "shape (normalized interp raws) = [length raws, 224, 224, 3]"
    by (rule normalized_shape[OF assms])
  have ce: "\<And>i h w c. cell (normalized interp raws) [i, h, w, c] =
     (if i < length raws then real (unat (interp (raws ! i) [h, w, c])) / 255 else 0)"
    by (rule normalized_cell[OF assms])
  consider (pad) "int (length raws) < target"
    | (cut) "\<not> int (length raws) < target" "int (length raws) > target"
    | (same) "\<not> int (length raws) < target" "\<not> int (length raws) > target"
    by blast
  then show ?thesis
  proof cases
    case pad
    then show ?thesis
      using sh ce by (simp add: fit_length_def len_nd_def np_pad_def Let_def out_len_def)
  next
    case cut
    then show ?thesis
      using sh ce by (simp add: fit_length_def len_nd_def slice_to_def out_len_def)
  next
    case same
    then show ?thesis
      using sh ce by (simp add: fit_length_def len_nd_def out_len_def)
  qed
qed

lemma permute_4d:
  assumes "shape a = [n, 224, 224, 3]"
  shows "\<exists>t. permute [0, 3, 1, 2] a = Inr t \<and> shape t = [n, 3, 224, 224] \<and>
           (\<forall>i c h w. cell t [i, c, h, w] = cell a [i, h, w, c])"
  using assms by (simp add: permute_def upt_rec_numeral)

subsection \<open>What \<^verbatim>\<open>__getitem__\<close> returns\<close>

text \<open>
  A video that delivers at least one frame: the call returns a tensor in the layout
  (time, channel, height, width) whose frame \<open>i\<close> is the resized frame \<open>i\<close> of the
  video divided by 255 where the video has such a frame, and zero beyond.
\<close>

lemma getitem_result:
  assumes "py_index (video_paths self) idx = Inr video_path"
    and "py_index (labels self) idx = Inr label"
    and "decoded (VideoCapture video_path) = raws" and "raws \<noteq> []"
  shows "\<exists>t. getitem VideoCapture interp self idx = Inr (t, label) \<and>
           shape t = [out_len (length raws) (fixed_frame_count self), 3, 224, 224] \<and>
           (\<forall>i c h w. c < 3 \<longrightarrow> h < 224 \<longrightarrow> w < 224 \<longrightarrow>
              cell t [i, c, h, w] =
                (if i < length raws then real (unat (interp (raws ! i) [h, w, c])) / 255 else 0))"
proof -
  from fit_length_frames[OF assms(4), of interp "fixed_frame_count self"]
  obtain fr where fr: "fit_length (normalized interp raws) (fixed_frame_count self) = Inr fr"
    and sh: "shape fr = [out_len (length raws) (fixed_frame_count self), 224, 224, 3]"
    and ce: "\<And>i h w c. h < 224 \<Longrightarrow> w < 224 \<Longrightarrow> c < 3 \<Longrightarrow>
              cell fr [i, h, w, c] =
                (if i < length raws then real (unat (interp (raws ! i) [h, w, c])) / 255 else 0)"
    by blast
  from permute_4d[OF sh] obtain t where t: "permute [0, 3, 1, 2] fr = Inr t"
    and sht: "shape t = [out_len (length raws) (fixed_frame_count self), 3, 224, 224]"
    and cet: "\<And>i c h w. cell t [i, c, h, w] = cell fr [i, h, w, c]"
    by blast
  have "getitem VideoCapture interp self idx = Inr (t, label)"
    by (simp only: getitem_unfold[OF assms(1,2)] assms(3) fr t sum.case)
  then show ?thesis using sht cet ce by auto
qed

text \<open>
  A video that delivers no frame: the stacked array has the single axis of length 0, so
  the four-axis padding raises \<^verbatim>\<open>ValueError\<close>; with a frame count that asks for no
  padding the four-axis permutation raises \<^verbatim>\<open>RuntimeError\<close>.
\<close>

lemma getitem_empty:
  assumes "py_index (video_paths self) idx = Inr video_path"
    and "py_index (labels self) idx = Inr label"
    and "decoded (VideoCapture video_path) = []"
  shows "getitem VideoCapture interp self idx =
           Inl (if 0 < fixed_frame_count self then ValueError else RuntimeError)"
proof -
  have p: "permute [0, 3, 1, 2] (normalized interp []) = Inl RuntimeError"
    by (rule permute_1d) (simp add: normalized_Nil)
  show ?thesis
    by (cases "0 < fixed_frame_count self")
       (simp_all only: getitem_unfold[OF assms(1,2)] assms(3) fit_length_empty p sum.case
          if_True if_False)
qed

lemma out_len_nonneg: "0 \<le> target \<Longrightarrow> out_len n target = nat target"
  by (auto simp: out_len_def slice_len_def)

text \<open>
  With a frame count \<open>F \<ge> 0\<close> and at least one decoded frame the temporal length is
  exactly \<open>F\<close>: frames beyond the decoded length are zero, and a longer video keeps its
  first \<open>F\<close> frames in order.
\<close>

lemma getitem_pads_or_truncates:
  assumes "py_index (video_paths self) idx = Inr video_path"
    and "py_index (labels self) idx = Inr label"
    and "decoded (VideoCapture video_path) = raws" and "raws \<noteq> []"
    and "0 \<le> fixed_frame_count self"
  shows "\<exists>t. getitem VideoCapture interp self idx = Inr (t, label) \<and>
           shape t = [nat (fixed_frame_count self), 3, 224, 224] \<and>
           (\<forall>i c h w. i < nat (fixed_frame_count self) \<longrightarrow> c < 3 \<longrightarrow> h < 224 \<longrightarrow> w < 224 \<longrightarrow>
              cell t [i, c, h, w] =
                (if i < length raws then real (unat (interp (raws ! i) [h, w, c])) / 255 else 0))"
  using getitem_result[where VideoCapture = VideoCapture and video_path = video_path,
      OF assms(1-4), of interp] out_len_nonneg[OF assms(5)] by auto


subsection \<open>The claims about \<^verbatim>\<open>__getitem__\<close>\<close>

text \<open>
  Claim C3 says that a video file that cannot be read comes back as an all-zero tensor of
  length \<open>F\<close>, with no error. The code does not do that: whenever the decode yields
  zero frames, \<open>getitem\<close> raises, \<^verbatim>\<open>ValueError\<close> from the padding for every
  positive frame count.
\<close>

theorem getitem_unreadable_video_raises:
  assumes "py_index (video_paths self) idx = Inr video_path"
    and "py_index (labels self) idx = Inr label"
    and "decoded (VideoCapture video_path) = []"
  shows "getitem VideoCapture interp self idx =
           Inl (if 0 < fixed_frame_count self then ValueError else RuntimeError)"
  by (rule getitem_empty[where VideoCapture = VideoCapture and video_path = video_path,
      OF assms])

theorem getitem_unreadable_video_raises_witness:
  "py_index (video_paths example_dataset) 2 = Inr ''data/walk/broken.avi'' \<and>
   py_index (labels example_dataset) 2 = Inr 1 \<and>
   decoded (example_capture ''data/walk/broken.avi'') = [] \<and>
   getitem example_capture example_interp example_dataset 2 = Inl ValueError"
proof -
  have h1: "py_index (video_paths example_dataset) 2 = Inr ''data/walk/broken.avi''"
    by (simp add: py_index_def example_dataset_def)
  have h2: "py_index (labels example_dataset) 2 = Inr 1"
    by (simp add: py_index_def example_dataset_def)
  have h3: "decoded (example_capture ''data/walk/broken.avi'') = []"
    by (simp add: decoded_def example_capture_def)
  have "getitem example_capture example_interp example_dataset 2 = Inl ValueError"
    using getitem_unreadable_video_raises[where VideoCapture = example_capture
        and video_path = "''data/walk/broken.avi''", OF h1 h2 h3, of example_interp]
    by (simp add: example_dataset_def)
  with h1 h2 h3 show ?thesis by blast
qed

text \<open>
  Claim C1 says that a video of any decoded length \<open>L\<close> comes back as a tensor of
  temporal length exactly \<open>F\<close>. At \<open>L = 0\<close> the code returns no tensor: with the
  constructor's default frame count of 100 and a file that cannot be opened,
  \<open>getitem\<close> raises \<^verbatim>\<open>ValueError\<close>.
\<close>

theorem getitem_default_unreadable_raises:
  "getitem unreadable_capture example_interp default_dataset 0 = Inl ValueError"
  by (simp add: getitem_def py_index_def default_dataset_def unreadable_capture_def decoded_def
      np_array_def map_cells_def fit_length_def len_nd_def np_pad_def Let_def)



lemma getitem_truncation_example:
  "\<exists>t. getitem example_capture example_interp example_dataset 1 = Inr (t, 1) \<and>
      shape t = [3, 3, 224, 224] \<and>
      cell t [0, 0, 0, 0] = 250 / 255 \<and> cell t [2, 1, 9, 9] = 52 / 255"
proof -
  have h1: "py_index (video_paths example_dataset) 1 = Inr ''data/walk/w2.avi''"
    by (simp add: py_index_def example_dataset_def)
  have h2: "py_index (labels example_dataset) 1 = Inr 1"
    by (simp add: py_index_def example_dataset_def)
  have h3: "decoded (example_capture ''data/walk/w2.avi'') = [250, 0, 51, 102]"
    by (simp add: decoded_def example_capture_def)
  have h4: "[250, 0, 51, 102 :: 8 word] \<noteq> []" by simp
  have h5: "0 \<le> fixed_frame_count example_dataset" by (simp add: example_dataset_def)
  from getitem_pads_or_truncates[where VideoCapture = example_capture
      and video_path = "''data/walk/w2.avi''", OF h1 h2 h3 h4 h5, of example_interp]
  obtain t where g: "getitem example_capture example_interp example_dataset 1 = Inr (t, 1)"
    and sh: "shape t = [3, 3, 224, 224]"
    and v: "\<And>i c h w. i < 3 \<Longrightarrow> c < 3 \<Longrightarrow> h < 224 \<Longrightarrow> w < 224 \<Longrightarrow>
      cell t [i, c, h, w] =
        (if i < 4 then real (unat (example_interp ([250, 0, 51, 102] ! i) [h, w, c])) / 255
         else 0)"
    by (auto simp: example_dataset_def)
  have a: "cell t [0, 0, 0, 0] = 250 / 255"
    using v[of 0 0 0 0] by (simp add: example_interp_def)
  have b: "cell t [2, 1, 9, 9] = 52 / 255"
    using v[of 2 1 9 9] by (simp add: example_interp_def)
  from g sh a b show ?thesis by blast
qed

section \<open>Properties of the sequence model\<close>

text \<open>
  With an input size equal to the number of features of a time step, and a batch that is
  not empty, the forward pass returns logits of shape (batch, num_classes).
\<close>

lemma forward_shape_ok:
  assumes "0 < b" "0 < t" "c * h * w = input_size self"
  shows "forward_shape self [b, t, c, h, w] = Inr [b, num_classes self]"
  using assms
  by (simp add: forward_shape_def reshape_flat_def lstm_shape_def transformer_shape_def
      last_step_def linear_shape_def)

lemma fixed_model_forward_batch:
  "forward_shape (main_model\<lparr>input_size := 3 * 224 * 224\<rparr>) [8, 100, 3, 224, 224] = Inr [8, 101]"
  by (simp add: forward_shape_def reshape_flat_def lstm_shape_def main_model_def
      transformer_shape_def last_step_def linear_shape_def)

text \<open>
  Claim C2 says that the forward pass returns logits of shape (batch, num_classes) on
  every input of shape (batch, time, channel, height, width), and in particular that the
  model constructed by the pipeline succeeds on frames of shape 3 x 224 x 224. The
  pipeline's model does not: its LSTM expects 224 features and is given 150528, so the
  forward pass raises \<^verbatim>\<open>RuntimeError\<close> on every batch of such frames.
\<close>

theorem main_model_forward_raises:
  "forward_shape main_model [b, t, 3, 224, 224] = Inl RuntimeError"
  by (simp add: forward_shape_def reshape_flat_def lstm_shape_def main_model_def)

section \<open>Properties of the training and evaluation loops\<close>

subsection \<open>Batches, predictions and counters\<close>

declare chunks.simps [simp del]

lemma chunks_Nil [simp]: "chunks k [] = []"
  by (simp add: chunks.simps)




lemma fetch_batch_lengths:
  "fetch_batch get idxs = Inr (xs, ys) \<Longrightarrow> length xs = length idxs \<and> length ys = length idxs"
  by (induction idxs arbitrary: xs ys) (auto split: sum.splits prod.splits)


lemma torch_max1_length: "torch_max1 outputs = Inr predicted \<Longrightarrow> length predicted = length outputs"
  by (auto simp: torch_max1_def split: if_splits)


lemma eq_sum_bound:
  assumes "length predicted = length ys"
  shows "\<exists>hits. eq_sum predicted ys = Inr hits \<and> hits \<le> length ys"
proof -
  have "length (filter (\<lambda>(p, y). p = y) (zip predicted ys)) \<le> length (zip predicted ys)"
    by (rule length_filter_le)
  then show ?thesis using assms by (simp add: eq_sum_def)
qed

lemma batch_hits:
  assumes "batch_preserving forward"
    and "fetch_batch get idxs = Inr (inputs, ys)"
    and "forward p b inputs = Inr outputs"
    and "torch_max1 outputs = Inr predicted"
    and "eq_sum predicted ys = Inr hits"
  shows "hits \<le> length idxs \<and> length ys = length idxs"
proof -
  have l: "length inputs = length idxs" "length ys = length idxs"
    using fetch_batch_lengths[OF assms(2)] by simp_all
  have "length outputs = length inputs"
    using assms(1,3) unfolding batch_preserving_def by blast
  then have "length predicted = length ys"
    using torch_max1_length[OF assms(4)] l by simp
  from eq_sum_bound[OF this] assms(5) l show ?thesis by auto
qed


lemma eval_batches_counts:
  assumes "batch_preserving forward"
    and "eval_batches forward get model batches ct = Inr ct'"
  shows "total ct' = total ct + sum_list (map length batches) \<and>
         correct ct \<le> correct ct' \<and>
         correct ct' \<le> correct ct + sum_list (map length batches)"
  using assms(2)
proof (induction batches arbitrary: ct)
  case Nil
  then show ?case by simp
next
  case (Cons idxs rest)
  from Cons.prems obtain inputs ys outputs predicted hits where
    f: "fetch_batch get idxs = Inr (inputs, ys)"
    and fw: "forward (params model) (training model) inputs = Inr outputs"
    and tm: "torch_max1 outputs = Inr predicted"
    and es: "eq_sum predicted ys = Inr hits"
    and rec: "eval_batches forward get model rest
               \<lparr>correct = correct ct + hits, total = total ct + length ys\<rparr> = Inr ct'"
    by (auto split: sum.splits prod.splits)
  from batch_hits[OF assms(1) f fw tm es]
  have h: "hits \<le> length idxs" "length ys = length idxs" by simp_all
  from Cons.IH[OF rec] h show ?case by simp
qed












subsection \<open>The claims about the loops\<close>





text \<open>
  Claim C9 says that with an empty test set \<open>test_model\<close>, and with an empty train set
  \<open>train_model\<close>, raises a division by zero instead of returning. For \<open>train_model\<close>
  this fails when no epoch is run: with \<open>epochs = 0\<close> the loop body is never entered and
  the call returns two empty lists.
\<close>

theorem train_model_no_epochs_returns:
  "train_model example_forward example_criterion example_step empty_loader
     (\<lambda>epoch. example_perm) 0 (example_module, 0) = Inr ([], [], example_module, 0)"
  by (simp add: train_model_def)

text \<open>
  Claim C9, amended. On an empty dataset \<open>test_model\<close> raises
  \<^verbatim>\<open>ZeroDivisionError\<close>, and so does \<open>train_model\<close> whenever at least one epoch is
  run.
\<close>

theorem empty_set_division_by_zero:
  assumes "dataset_len loader = 0"
  shows "test_model forward loader perm model = Inl ZeroDivisionError \<and>
         (0 < epochs \<longrightarrow>
            train_model forward criterion step loader sampler epochs st = Inl ZeroDivisionError)"
proof -
  have b: "batch_indices loader p = []" for p
    using assms by (simp add: batch_indices_def sample_order_def)
  have t: "test_model forward loader perm model = Inl ZeroDivisionError"
    by (simp add: test_model_def b true_div_def)
  have e: "train_epoch forward criterion step loader p s = Inl ZeroDivisionError" for p s
    by (simp add: train_epoch_def b zero_tally_def true_div_def)
  have "train_model forward criterion step loader sampler epochs st = Inl ZeroDivisionError"
    if "0 < epochs"
  proof -
    obtain m opt where st: "st = (m, opt)" by (cases st)
    from that have "[0..<nat epochs] = 0 # [1..<nat epochs]"
      by (simp add: upt_conv_Cons)
    then show ?thesis by (simp add: train_model_def e st)
  qed
  with t show ?thesis by blast
qed

theorem empty_set_division_by_zero_witness:
  "dataset_len empty_loader = 0 \<and> (0::int) < 3 \<and>
   test_model example_forward empty_loader example_perm example_module = Inl ZeroDivisionError \<and>
   train_model example_forward example_criterion example_step empty_loader
     (\<lambda>epoch. example_perm) 3 (example_module, 0) = Inl ZeroDivisionError"
proof -
  have h: "dataset_len empty_loader = 0" by (simp add: empty_loader_def)
  have p: "(0::int) < 3" by simp
  from empty_set_division_by_zero[OF h, of example_forward example_perm example_module 3
      example_criterion example_step "\<lambda>epoch. example_perm" "(example_module, 0)"] h p
  show ?thesis by blast
qed

end
